theory Spec2Isabelle
  imports Main
begin

section \<open>Characters and strings\<close>

text \<open>
  Python strings are modelled as \<open>string\<close> (lists of 8-bit characters).  The character
  classes of the \<open>re\<close> module are modelled on the ASCII range: a word character is an
  ASCII letter, an ASCII digit or the underscore, and case folding maps \<open>A..Z\<close> to
  \<open>a..z\<close>.  Every statement below is therefore a statement about paths made of ASCII
  characters.
\<close>

definition code :: "char \<Rightarrow> nat" where
  "code c = of_char c"

definition is_digit :: "char \<Rightarrow> bool" where
  "is_digit c = (48 \<le> code c \<and> code c \<le> 57)"

definition is_upper :: "char \<Rightarrow> bool" where
  "is_upper c = (65 \<le> code c \<and> code c \<le> 90)"

definition is_lower :: "char \<Rightarrow> bool" where
  "is_lower c = (97 \<le> code c \<and> code c \<le> 122)"

definition is_word :: "char \<Rightarrow> bool" where
  "is_word c = (is_digit c \<or> is_upper c \<or> is_lower c \<or> c = CHR ''_'')"

definition is_space :: "char \<Rightarrow> bool" where
  "is_space c = (c = CHR '' '' \<or> (9 \<le> code c \<and> code c \<le> 13) \<or> (28 \<le> code c \<and> code c \<le> 31))"

definition lower :: "char \<Rightarrow> char" where
  "lower c = (if is_upper c then char_of (code c + 32) else c)"

definition upper :: "char \<Rightarrow> char" where
  "upper c = (if is_lower c then char_of (code c - 32) else c)"

definition str_lower :: "string \<Rightarrow> string" where
  "str_lower s = map lower s"

text \<open>\<open>str.startswith\<close>.\<close>

fun startswith :: "string \<Rightarrow> string \<Rightarrow> bool" where
  "startswith s [] = True"
| "startswith [] (p # ps) = False"
| "startswith (x # xs) (p # ps) = (x = p \<and> startswith xs ps)"

section \<open>Paths (\<open>os.path\<close> on POSIX)\<close>

text \<open>
  \<open>posixpath.basename\<close> returns what follows the last slash; \<open>posixpath.dirname\<close>
  returns what precedes it, with the trailing slashes removed unless nothing but slashes
  would remain.
\<close>

definition basename :: "string \<Rightarrow> string" where
  "basename p = rev (takeWhile (\<lambda>c. c \<noteq> CHR ''/'') (rev p))"

definition dirname :: "string \<Rightarrow> string" where
  "dirname p =
     (let head = rev (dropWhile (\<lambda>c. c \<noteq> CHR ''/'') (rev p))
      in if head \<noteq> [] \<and> \<not> list_all (\<lambda>c. c = CHR ''/'') head
         then rev (dropWhile (\<lambda>c. c = CHR ''/'') (rev head))
         else head)"

text \<open>The string \<open>f'{folder}/{file}'\<close> that every parser method searches.\<close>

definition folder_file :: "string \<Rightarrow> string" where
  "folder_file source_path = basename (dirname source_path) @ ''/'' @ basename source_path"

section \<open>Regular expressions (the part of \<open>re\<close> that \<open>patterns.py\<close> uses)\<close>

text \<open>
  A pattern is a syntax tree.  \<open>Sym\<close> is one character of a class, \<open>Rep lo hi greedy k\<close> is
  the repetition \<open>k{lo,hi}\<close> of a character class (\<open>hi = None\<close> for no upper bound; \<open>*\<close>,
  \<open>+\<close>, \<open>?\<close> and their lazy forms are instances), \<open>WordB\<close> is \<open>\b\<close>, \<open>Eol\<close> is \<open>$\<close>,
  \<open>Bol\<close> is \<open>^\<close> and \<open>Grp\<close> is a capturing group, known by its name (or by its number,
  written as a string, when it has none).
\<close>

datatype item = Ch char | Range char char | Digit | Word | NonWord | Space

datatype cls = In "item list" | NotIn "item list"

datatype rx =
    Emp
  | Sym cls
  | Seq rx rx
  | Alt rx rx
  | Rep nat "nat option" bool cls
  | WordB
  | Bol
  | Eol
  | Grp string rx

fun item_ok :: "bool \<Rightarrow> item \<Rightarrow> char \<Rightarrow> bool" where
  "item_ok ic (Ch c) x = (if ic then lower x = lower c else x = c)"
| "item_ok ic (Range a b) x =
     (if ic then (code a \<le> code (lower x) \<and> code (lower x) \<le> code b)
              \<or> (code a \<le> code (upper x) \<and> code (upper x) \<le> code b)
      else code a \<le> code x \<and> code x \<le> code b)"
| "item_ok ic Digit x = is_digit x"
| "item_ok ic Word x = is_word x"
| "item_ok ic NonWord x = (\<not> is_word x)"
| "item_ok ic Space x = is_space x"

fun cls_ok :: "bool \<Rightarrow> cls \<Rightarrow> char \<Rightarrow> bool" where
  "cls_ok ic (In its) x = list_ex (\<lambda>i. item_ok ic i x) its"
| "cls_ok ic (NotIn its) x = (\<not> list_ex (\<lambda>i. item_ok ic i x) its)"

type_synonym caps = "(string \<times> string) list"

text \<open>
  A matching state is the text already passed (reversed, so that its head is the
  character just before the current position), the text still to read, and the groups
  captured so far.
\<close>

type_synonym mstate = "string \<times> string \<times> caps"

definition at_boundary :: "string \<Rightarrow> string \<Rightarrow> bool" where
  "at_boundary l r = ((l \<noteq> [] \<and> is_word (hd l)) \<noteq> (r \<noteq> [] \<and> is_word (hd r)))"

text \<open>
  \<open>rmatch ic p l r cs\<close> lists the states in which the backtracking matcher can leave
  pattern \<open>p\<close> when it enters it at \<open>(l, r, cs)\<close>, in the order in which backtracking
  tries them: the first alternative before the second, the longest repetition first when
  greedy and the shortest first when lazy.  \<open>ic\<close> is the flag \<open>re.I\<close>.
\<close>

fun rmatch :: "bool \<Rightarrow> rx \<Rightarrow> string \<Rightarrow> string \<Rightarrow> caps \<Rightarrow> mstate list" where
  "rmatch ic Emp l r cs = [(l, r, cs)]"
| "rmatch ic (Sym k) l r cs =
     (case r of [] \<Rightarrow> [] | x # r' \<Rightarrow> if cls_ok ic k x then [(x # l, r', cs)] else [])"
| "rmatch ic (Seq a b) l r cs =
     concat (map (\<lambda>(l', r', cs'). rmatch ic b l' r' cs') (rmatch ic a l r cs))"
| "rmatch ic (Alt a b) l r cs = rmatch ic a l r cs @ rmatch ic b l r cs"
| "rmatch ic (Rep lo hi greedy k) l r cs =
     (let n = length (takeWhile (cls_ok ic k) r);
          top = (case hi of None \<Rightarrow> n | Some h \<Rightarrow> min h n);
          js = [lo..<Suc top]
      in map (\<lambda>j. (rev (take j r) @ l, drop j r, cs)) (if greedy then rev js else js))"
| "rmatch ic WordB l r cs = (if at_boundary l r then [(l, r, cs)] else [])"
| "rmatch ic Bol l r cs = (if l = [] then [(l, r, cs)] else [])"
| "rmatch ic Eol l r cs = (if r = [] \<or> r = [CHR 0x0A] then [(l, r, cs)] else [])"
| "rmatch ic (Grp name a) l r cs =
     map (\<lambda>(l', r', cs'). (l', r', (name, take (length r - length r') r) # cs'))
       (rmatch ic a l r cs)"

text \<open>
  A match object: the text before the match (reversed), the matched text
  (\<open>group()\<close>), the text after it, and the captured groups.  \<open>group name\<close> is \<open>None\<close>
  for a group that took no part in the match.
\<close>

record rmatch_obj =
  m_pre :: string
  m_text :: string
  m_post :: string
  m_groups :: caps

definition mk_match :: "string \<Rightarrow> string \<Rightarrow> mstate \<Rightarrow> rmatch_obj" where
  "mk_match l r st =
     (case st of (l', r', cs) \<Rightarrow>
        \<lparr>m_pre = l, m_text = take (length r - length r') r, m_post = r', m_groups = cs\<rparr>)"

definition group :: "rmatch_obj \<Rightarrow> string \<Rightarrow> string option" where
  "group mt name = map_of (m_groups mt) name"

text \<open>
  The attempts at one starting position.  After an empty match the scanner must advance:
  at the position where it resumes, an empty match is refused.
\<close>

definition attempts :: "bool \<Rightarrow> rx \<Rightarrow> bool \<Rightarrow> string \<Rightarrow> string \<Rightarrow> mstate list" where
  "attempts ic p adv l r =
     (let res = rmatch ic p l r []
      in if adv then filter (\<lambda>(l', r', cs). length r' < length r) res else res)"

text \<open>The scan of \<open>re.search\<close>: the first position, from the left, at which the pattern matches.\<close>

fun scan :: "bool \<Rightarrow> rx \<Rightarrow> bool \<Rightarrow> string \<Rightarrow> string \<Rightarrow> rmatch_obj option" where
  "scan ic p adv l [] =
     (case attempts ic p adv l [] of [] \<Rightarrow> None | st # _ \<Rightarrow> Some (mk_match l [] st))"
| "scan ic p adv l (x # r) =
     (case attempts ic p adv l (x # r) of
        [] \<Rightarrow> scan ic p False (x # l) r
      | st # _ \<Rightarrow> Some (mk_match l (x # r) st))"

definition re_search :: "bool \<Rightarrow> rx \<Rightarrow> string \<Rightarrow> rmatch_obj option" where
  "re_search ic p s = scan ic p False [] s"


text \<open>No state of the matcher has more text left to read than the state it started from.\<close>

lemma rmatch_length:
  "(l', r', cs') \<in> set (rmatch ic p l r cs) \<Longrightarrow> length r' \<le> length r"
proof (induction p arbitrary: l r cs l' r' cs')
  case (Sym k)
  then show ?case by (auto split: list.splits if_splits)
next
  case (Seq a b)
  from Seq.prems obtain l1 r1 cs1 where
    a: "(l1, r1, cs1) \<in> set (rmatch ic a l r cs)" and
    b: "(l', r', cs') \<in> set (rmatch ic b l1 r1 cs1)"
    by auto
  from Seq.IH(1)[OF a] Seq.IH(2)[OF b] show ?case by simp
next
  case (Alt a b)
  then show ?case by auto
next
  case (Rep lo hi greedy k)
  then show ?case by (auto simp: Let_def split: if_splits)
next
  case (Grp name a)
  then show ?case by auto
qed (auto split: if_splits)

lemma attempts_length:
  "(l', r', cs') \<in> set (attempts ic p adv l r) \<Longrightarrow>
     length r' \<le> length r \<and> (adv \<longrightarrow> length r' < length r)"
  by (auto simp: attempts_def Let_def dest: rmatch_length split: if_splits)

lemma scan_length:
  "scan ic p adv l r = Some mt \<Longrightarrow>
     length (m_post mt) \<le> length r \<and> (adv \<longrightarrow> length (m_post mt) < length r)
     \<and> (m_text mt \<noteq> [] \<longrightarrow> length (m_post mt) < length r)"
proof (induction r arbitrary: l adv)
  case Nil
  then obtain st rest where a: "attempts ic p adv l [] = st # rest" and mt: "mt = mk_match l [] st"
    by (auto split: list.splits)
  obtain l' r' cs' where st: "st = (l', r', cs')" by (cases st)
  have "(l', r', cs') \<in> set (attempts ic p adv l [])" using a st by simp
  from attempts_length[OF this] show ?case using mt st by (simp add: mk_match_def)
next
  case (Cons x r)
  show ?case
  proof (cases "attempts ic p adv l (x # r)")
    case Nil
    with Cons.prems have "scan ic p False (x # l) r = Some mt" by simp
    from Cons.IH[OF this] show ?thesis by simp
  next
    case (Cons st rest)
    with Cons.prems have mt: "mt = mk_match l (x # r) st" by simp
    obtain l' r' cs' where st: "st = (l', r', cs')" by (cases st)
    have "(l', r', cs') \<in> set (attempts ic p adv l (x # r))" using Cons st by simp
    from attempts_length[OF this] show ?thesis using mt st
      by (auto simp: mk_match_def)
  qed
qed

text \<open>
  \<open>re.finditer\<close>: the matches from left to right, each scan resuming where the match
  before it ended.
\<close>

function finditer :: "bool \<Rightarrow> rx \<Rightarrow> bool \<Rightarrow> string \<Rightarrow> string \<Rightarrow> rmatch_obj list" where
  "finditer ic p adv l r =
     (case scan ic p adv l r of
        None \<Rightarrow> []
      | Some mt \<Rightarrow>
          mt # finditer ic p (m_text mt = []) (rev (m_text mt) @ m_pre mt) (m_post mt))"
  by pat_completeness auto
termination
proof (relation "measure (\<lambda>(ic, p, adv, l, r). 2 * length r + (if adv then 0 else 1))")
  show "wf (measure (\<lambda>(ic, p, adv, l, r). 2 * length r + (if adv then 0 else 1)))"
    by simp
next
  fix ic p adv l r mt
  assume "scan ic p adv l r = Some mt"
  from scan_length[OF this]
  show "((ic, p, m_text mt = [], rev (m_text mt) @ m_pre mt, m_post mt), (ic, p, adv, l, r))
        \<in> measure (\<lambda>(ic, p, adv, l, r). 2 * length r + (if adv then 0 else 1))"
    by (cases adv; cases "m_text mt = []"; simp)
qed

declare finditer.simps [simp del]

text \<open>
  A replacement template is a sequence of literal texts and group references; a
  reference to a group that took no part in the match expands to the empty string.
\<close>

datatype tpl_item = TLit string | TGroup string

fun expand_item :: "rmatch_obj \<Rightarrow> tpl_item \<Rightarrow> string" where
  "expand_item mt (TLit s) = s"
| "expand_item mt (TGroup g) = (case group mt g of None \<Rightarrow> [] | Some t \<Rightarrow> t)"

definition expand :: "tpl_item list \<Rightarrow> rmatch_obj \<Rightarrow> string" where
  "expand tpl mt = concat (map (expand_item mt) tpl)"

text \<open>
  \<open>re.sub\<close>: every match of the left-to-right scan is replaced by the expansion of the
  template; the text between the matches is copied.
\<close>

function sub_from :: "bool \<Rightarrow> rx \<Rightarrow> tpl_item list \<Rightarrow> bool \<Rightarrow> string \<Rightarrow> string \<Rightarrow> string" where
  "sub_from ic p tpl adv l r =
     (case scan ic p adv l r of
        None \<Rightarrow> r
      | Some mt \<Rightarrow>
          take (length (m_pre mt) - length l) r @ expand tpl mt @
          sub_from ic p tpl (m_text mt = []) (rev (m_text mt) @ m_pre mt) (m_post mt))"
  by pat_completeness auto
termination
proof (relation "measure (\<lambda>(ic, p, tpl, adv, l, r). 2 * length r + (if adv then 0 else 1))")
  show "wf (measure (\<lambda>(ic, p, tpl, adv, l, r). 2 * length r + (if adv then 0 else 1)))"
    by simp
next
  fix ic p tpl adv l r mt
  assume "scan ic p adv l r = Some mt"
  from scan_length[OF this]
  show "((ic, p, tpl, m_text mt = [], rev (m_text mt) @ m_pre mt, m_post mt), (ic, p, tpl, adv, l, r))
        \<in> measure (\<lambda>(ic, p, tpl, adv, l, r). 2 * length r + (if adv then 0 else 1))"
    by (cases adv; cases "m_text mt = []"; simp)
qed

declare sub_from.simps [simp del]

definition re_sub :: "bool \<Rightarrow> rx \<Rightarrow> tpl_item list \<Rightarrow> string \<Rightarrow> string" where
  "re_sub ic p tpl s = sub_from ic p tpl False [] s"

section \<open>The pattern library (\<open>patterns.py\<close>)\<close>

fun lit :: "string \<Rightarrow> rx" where
  "lit [] = Emp"
| "lit (c # cs) = Seq (Sym (In [Ch c])) (lit cs)"

definition digit :: rx where
  "digit = Sym (In [Digit])"

definition rng :: "char \<Rightarrow> char \<Rightarrow> rx" where
  "rng a b = Sym (In [Range a b])"

text \<open>\<open>c?\<close> and \<open>c{0,n}\<close> for a literal character \<open>c\<close>.\<close>

definition opt_ch :: "char \<Rightarrow> rx" where
  "opt_ch c = Rep 0 (Some 1) True (In [Ch c])"


text \<open>\<open>[^\/]+\b(?P<year>192[1-9]|19[3-9]\d|20[0-9]\d|21[0-5]\d)\b\<close>\<close>

definition year_alts :: rx where
  "year_alts =
     Alt (Seq (lit ''192'') (rng CHR ''1'' CHR ''9''))
    (Alt (Seq (lit ''19'') (Seq (rng CHR ''3'' CHR ''9'') digit))
    (Alt (Seq (lit ''20'') (Seq (rng CHR ''0'' CHR ''9'') digit))
         (Seq (lit ''21'') (Seq (rng CHR ''0'' CHR ''5'') digit))))"

definition year :: rx where
  "year = Seq (Rep 1 None True (NotIn [Ch CHR ''/'']))
         (Seq WordB (Seq (Grp ''year'' year_alts) WordB))"

text \<open>\<open>\b(?P<resolution>(?:(?:72|108|216)0p?)|4K)\b\<close>, with \<open>re.I\<close>\<close>

definition resolution :: rx where
  "resolution =
     Seq WordB (Seq (Grp ''resolution''
       (Alt (Seq (Alt (lit ''72'') (Alt (lit ''108'') (lit ''216'')))
                 (Seq (lit ''0'') (opt_ch CHR ''p'')))
            (lit ''4K''))) WordB)"

text \<open>
  \<open>\b(?:(?P<bluray>blu-?ray|bdremux|bdrip)|(?P<webdl>web-?dl|webrip|amzn|nf|hulu|dsnp|atvp)|\<close>
  \<open>(?P<hdtv>hdtv)|(?P<dvd>dvd)|(?P<sdtv>sdtv))\b\<close>, with \<open>re.I\<close>
\<close>

definition bluray_alts :: rx where
  "bluray_alts =
     Alt (Seq (lit ''blu'') (Seq (opt_ch CHR ''-'') (lit ''ray'')))
    (Alt (lit ''bdremux'') (lit ''bdrip''))"

definition webdl_alts :: rx where
  "webdl_alts =
     Alt (Seq (lit ''web'') (Seq (opt_ch CHR ''-'') (lit ''dl'')))
    (Alt (lit ''webrip'') (Alt (lit ''amzn'') (Alt (lit ''nf'')
    (Alt (lit ''hulu'') (Alt (lit ''dsnp'') (lit ''atvp''))))))"

definition media :: rx where
  "media =
     Seq WordB (Seq
       (Alt (Grp ''bluray'' bluray_alts)
       (Alt (Grp ''webdl'' webdl_alts)
       (Alt (Grp ''hdtv'' (lit ''hdtv''))
       (Alt (Grp ''dvd'' (lit ''dvd''))
            (Grp ''sdtv'' (lit ''sdtv''))))))
       WordB)"





text \<open>\<open>([\._\<cdot>\[\]{}\(\)]|[\s\W]+$)\<close>; the middle dot is the character 0xB7.\<close>

definition strip_from_title :: rx where
  "strip_from_title =
     Grp ''1''
       (Alt (Sym (In [Ch CHR ''.'', Ch CHR ''_'', Ch (CHR 0xB7), Ch CHR ''['', Ch CHR '']'',
                      Ch CHR ''{'', Ch CHR ''}'', Ch CHR ''('', Ch CHR '')'']))
            (Seq (Rep 1 None True (In [Space, NonWord])) Eol))"

section \<open>Configuration (\<open>config\<close>)\<close>

text \<open>
  The configuration is a parameter of the model: the prefixes to strip, the strings that
  keep their periods, and the edition map, an ordered list of pairs of a pattern (the
  search key, already parsed) and a replacement template.
\<close>

record config =
  strip_prefixes :: "string list"
  keep_period :: "string list"
  edition_map :: "(rx \<times> tpl_item list) list"

section \<open>The parser (\<open>parser.py\<close>)\<close>

text \<open>\<open>int\<close> of a string of decimal digits, and \<open>str\<close> of a natural number.\<close>

definition digit_val :: "char \<Rightarrow> nat" where
  "digit_val c = code c - 48"

definition int_of_str :: "string \<Rightarrow> nat" where
  "int_of_str s = foldl (\<lambda>n c. 10 * n + digit_val c) 0 s"

function str_of_nat :: "nat \<Rightarrow> string" where
  "str_of_nat n =
     (if n < 10 then [char_of (48 + n)] else str_of_nat (n div 10) @ [char_of (48 + n mod 10)])"
  by pat_completeness auto
termination
  by (relation "measure (\<lambda>n. n)") auto

declare str_of_nat.simps [simp del]

text \<open>\<open>str(x)\<close> for \<open>x\<close> an integer or \<open>None\<close>.\<close>

definition py_str :: "nat option \<Rightarrow> string" where
  "py_str x = (case x of None \<Rightarrow> ''None'' | Some n \<Rightarrow> str_of_nat n)"

text \<open>
  \<open>get_year\<close>: all matches of the year pattern in the folder/file string; the year
  group of the last one, or \<open>None\<close>.  (The group takes part in every match of the
  pattern, hence its empty default is never used.)
\<close>

definition get_year :: "string \<Rightarrow> nat option" where
  "get_year source_path =
     (let matches = finditer False year False [] (folder_file source_path)
      in if matches \<noteq> []
         then Some (int_of_str (case group (last matches) ''year'' of Some g \<Rightarrow> g | None \<Rightarrow> []))
         else None)"

text \<open>\<open>get_resolution\<close>.\<close>

definition get_resolution :: "string \<Rightarrow> string option" where
  "get_resolution source_path =
     (case re_search True resolution (folder_file source_path) of
        None \<Rightarrow> None
      | Some mt \<Rightarrow>
          (let res = str_lower (case group mt ''resolution'' of Some g \<Rightarrow> g | None \<Rightarrow> []);
               res = (if res = ''4k'' then ''2160p'' else res)
           in Some (if CHR ''p'' \<notin> set res then res @ ''p'' else res)))"







text \<open>
  \<open>_edition_map\<close>: the first entry of the edition map whose key, between word
  boundaries and with \<open>re.I\<close>, is found in the folder/file string; the result is the
  compiled pattern and \<open>rx.sub(value, result.group())\<close>.
\<close>

fun edition_search :: "(rx \<times> tpl_item list) list \<Rightarrow> string \<Rightarrow> rx option \<times> string option" where
  "edition_search [] s = (None, None)"
| "edition_search ((key, val) # rest) s =
     (let rx = Seq WordB (Seq key WordB)
      in case re_search True rx s of
           Some result \<Rightarrow> (Some rx, Some (re_sub True rx val (m_text result)))
         | None \<Rightarrow> edition_search rest s)"

definition edition_map_of :: "config \<Rightarrow> string \<Rightarrow> rx option \<times> string option" where
  "edition_map_of cfg source_path = edition_search (edition_map cfg) (folder_file source_path)"



subsection \<open>\<open>get_title\<close>\<close>

text \<open>
  \<open>os.path.splitext(p)[0]\<close>: the text before the last dot, when that dot comes after
  the last slash and some character between the two is not a dot.
\<close>

definition rfind :: "char \<Rightarrow> string \<Rightarrow> int" where
  "rfind c s =
     (if c \<in> set s then int (length s) - 1 - int (length (takeWhile (\<lambda>x. x \<noteq> c) (rev s)))
      else - 1)"

definition splitext_root :: "string \<Rightarrow> string" where
  "splitext_root p =
     (let sepIndex = rfind CHR ''/'' p; dotIndex = rfind CHR ''.'' p
      in if dotIndex > sepIndex
            \<and> list_ex (\<lambda>k. p ! k \<noteq> CHR ''.'') [nat (sepIndex + 1)..<nat dotIndex]
         then take (nat dotIndex) p else p)"

text \<open>
  The loop over \<open>config.strip_prefixes\<close>: each prefix in turn is cut from the title
  when the title, as it is then, starts with it (both in lower case).
\<close>

definition strip_prefix :: "string \<Rightarrow> string \<Rightarrow> string" where
  "strip_prefix title prefix =
     (if startswith (str_lower title) (str_lower prefix) then drop (length prefix) title
      else title)"

definition strip_prefixes_loop :: "string list \<Rightarrow> string \<Rightarrow> string" where
  "strip_prefixes_loop prefixes title = foldl strip_prefix title prefixes"

text \<open>
  \<open>if re.search(r', the', title, re.I): title = f"The {re.sub(r', the', '', title, flags=re.I)}"\<close>
\<close>

definition the_article :: "string \<Rightarrow> string" where
  "the_article title =
     (if re_search True (lit '', the'') title \<noteq> None
      then ''The '' @ re_sub True (lit '', the'') [] title
      else title)"

text \<open>
  \<open>str.split(sep)\<close> for a separator that is not empty: the pieces between the
  occurrences of the separator, found from left to right without overlap.  Python raises
  \<open>ValueError\<close> on an empty separator.
\<close>

function split_from :: "string \<Rightarrow> string \<Rightarrow> string \<Rightarrow> string list" where
  "split_from sep acc [] = [rev acc]"
| "split_from sep acc (c # cs) =
     (if startswith (c # cs) sep
      then rev acc # split_from sep [] (drop (length sep - 1) cs)
      else split_from sep (c # acc) cs)"
  by pat_completeness auto
termination
  by (relation "measure (\<lambda>(sep, acc, r). length r)") auto

definition py_split :: "string \<Rightarrow> string \<Rightarrow> string list option" where
  "py_split s sep = (if sep = [] then None else Some (split_from sep [] s))"

text \<open>\<open>title.split(str(year))[0]\<close>; the separator is never empty.\<close>

definition split_on_year :: "nat option \<Rightarrow> string \<Rightarrow> string" where
  "split_on_year y title = (case py_split title (py_str y) of Some (x # _) \<Rightarrow> x | _ \<Rightarrow> title)"

text \<open>
  The loop over \<open>config.keep_period\<close>.  \<open>re.escape\<close> makes the string a literal; as a
  replacement the string stands for itself (it is taken to hold no backslash).
\<close>

definition keep_periods :: "string list \<Rightarrow> string \<Rightarrow> string" where
  "keep_periods ks title =
     foldl (\<lambda>t k. re_sub True (Seq WordB (Seq (lit k) WordB)) [TLit k] t) title ks"

text \<open>\<open>str.strip()\<close>.\<close>

definition py_strip :: "string \<Rightarrow> string" where
  "py_strip s = rev (dropWhile is_space (rev (dropWhile is_space s)))"

text \<open>
  Modelled from the spec: \<open>formatter.strip_extra_whitespace\<close> is not among the sources;
  the specification says of it "Collapse runs of whitespace and trim edges".
\<close>

fun collapse_ws :: "string \<Rightarrow> string" where
  "collapse_ws [] = []"
| "collapse_ws [c] = [c]"
| "collapse_ws (c # d # cs) =
     (if is_space c \<and> is_space d then collapse_ws (d # cs) else c # collapse_ws (d # cs))"

definition strip_extra_whitespace :: "string \<Rightarrow> string" where
  "strip_extra_whitespace s = py_strip (collapse_ws s)"

definition title_source :: "string \<Rightarrow> string" where
  "title_source source_path =
     (let folder = basename (dirname source_path); file = basename source_path
      in if get_year folder \<noteq> None \<or> get_resolution folder \<noteq> None then folder else file)"

text \<open>
  \<open>get_title\<close> in three parts: the steps before the split on the year (lines 63 to 94
  of \<open>parser.py\<close>), the split (line 100), and the steps after it (lines 104 to 109).
\<close>

definition title_before_year :: "config \<Rightarrow> string \<Rightarrow> string" where
  "title_before_year cfg source_path =
     (let title = title_source source_path;
          title = splitext_root title;
          title = strip_prefixes_loop (strip_prefixes cfg) title;
          title = the_article title;
          title = re_sub False strip_from_title [TLit '' ''] title;
          title = (case fst (edition_map_of cfg source_path) of
                     Some rx \<Rightarrow> re_sub True rx [] title
                   | None \<Rightarrow> title);
          title = re_sub True media [] title;
          title = re_sub True resolution [] title
      in title)"

definition title_after_year :: "config \<Rightarrow> string \<Rightarrow> string" where
  "title_after_year cfg title =
     (let title = keep_periods (keep_period cfg) title
      in strip_extra_whitespace (py_strip title))"

definition get_title :: "config \<Rightarrow> string \<Rightarrow> string" where
  "get_title cfg source_path =
     title_after_year cfg
       (split_on_year (get_year source_path) (title_before_year cfg source_path))"

section \<open>Facts about the matcher\<close>

lemma attempts_False: "attempts ic p False l r = rmatch ic p l r []"
  by (simp add: attempts_def)

lemma scan_rel_Some:
  "scan ic p False l r = Some mt \<Longrightarrow>
     \<exists>a st rest. a \<le> length r
        \<and> rmatch ic p (rev (take a r) @ l) (drop a r) [] = st # rest
        \<and> mt = mk_match (rev (take a r) @ l) (drop a r) st
        \<and> (\<forall>b<a. rmatch ic p (rev (take b r) @ l) (drop b r) [] = [])"
proof (induction r arbitrary: l)
  case Nil
  then show ?case by (auto simp: attempts_False split: list.splits)
next
  case (Cons x r)
  show ?case
  proof (cases "rmatch ic p l (x # r) []")
    case Nil
    with Cons.prems have "scan ic p False (x # l) r = Some mt"
      by (simp add: attempts_False)
    from Cons.IH[OF this] obtain a st rest where a: "a \<le> length r"
      "rmatch ic p (rev (take a r) @ x # l) (drop a r) [] = st # rest"
      "mt = mk_match (rev (take a r) @ x # l) (drop a r) st"
      "\<forall>b<a. rmatch ic p (rev (take b r) @ x # l) (drop b r) [] = []"
      by blast
    have "\<forall>b<Suc a. rmatch ic p (rev (take b (x # r)) @ l) (drop b (x # r)) [] = []"
    proof (intro allI impI)
      fix b assume "b < Suc a"
      then show "rmatch ic p (rev (take b (x # r)) @ l) (drop b (x # r)) [] = []"
        using Nil a(4) by (cases b) auto
    qed
    with a(1,2,3) show ?thesis
      by (intro exI[of _ "Suc a"] exI[of _ st] exI[of _ rest]) simp
  next
    case (Cons st rest)
    with Cons.prems have "mt = mk_match l (x # r) st" by (simp add: attempts_False)
    with Cons show ?thesis
      by (intro exI[of _ 0] exI[of _ st] exI[of _ rest]) simp
  qed
qed

lemma scan_rel_None:
  "scan ic p False l r = None \<Longrightarrow> a \<le> length r \<Longrightarrow>
     rmatch ic p (rev (take a r) @ l) (drop a r) [] = []"
proof (induction r arbitrary: l a)
  case Nil
  then show ?case by (auto simp: attempts_False split: list.splits)
next
  case (Cons x r)
  from Cons.prems(1) have n: "rmatch ic p l (x # r) [] = []" and s: "scan ic p False (x # l) r = None"
    by (auto simp: attempts_False split: list.splits)
  show ?case
  proof (cases a)
    case 0
    with n show ?thesis by simp
  next
    case (Suc a')
    with Cons.prems(2) have "a' \<le> length r" by simp
    from Cons.IH[OF s this] show ?thesis using Suc by simp
  qed
qed



















































section \<open>The year\<close>







section \<open>Literals and searches\<close>

text \<open>A literal matches when the text starts with it, compared as the flag says.\<close>

definition lit_match :: "bool \<Rightarrow> string \<Rightarrow> string \<Rightarrow> bool" where
  "lit_match ic w r =
     (length w \<le> length r \<and> list_all2 (\<lambda>c x. item_ok ic (Ch c) x) w (take (length w) r))"

lemma lit_match_Nil: "lit_match ic [] r"
  by (simp add: lit_match_def)

lemma lit_match_Cons:
  "lit_match ic (c # w) r = (case r of [] \<Rightarrow> False | x # r' \<Rightarrow> item_ok ic (Ch c) x \<and> lit_match ic w r')"
  by (cases r) (auto simp: lit_match_def)

lemma rmatch_Seq_lit:
  "rmatch ic (Seq (lit w) b) l r cs =
     (if lit_match ic w r then rmatch ic b (rev (take (length w) r) @ l) (drop (length w) r) cs
      else [])"
proof (induction w arbitrary: l r)
  case Nil
  show ?case by (simp add: lit_match_Nil)
next
  case (Cons c w)
  have "rmatch ic (Seq (lit (c # w)) b) l r cs
        = (case r of [] \<Rightarrow> [] | x # r' \<Rightarrow>
             if item_ok ic (Ch c) x then rmatch ic (Seq (lit w) b) (x # l) r' cs else [])"
    by (cases r) simp_all
  then show ?case
    unfolding Cons.IH by (cases r) (simp_all add: lit_match_Cons)
qed

lemma rmatch_Seq_Emp: "rmatch ic (Seq a Emp) l r cs = rmatch ic a l r cs"
proof -
  have "concat (map (\<lambda>(l', r', cs'). rmatch ic Emp l' r' cs') xs) = xs" for xs :: "mstate list"
    by (induction xs) auto
  then show ?thesis unfolding rmatch.simps(3) .
qed

lemma rmatch_lit:
  "rmatch ic (lit w) l r cs =
     (if lit_match ic w r then [(rev (take (length w) r) @ l, drop (length w) r, cs)] else [])"
  using rmatch_Seq_lit[of ic w Emp l r cs] unfolding rmatch_Seq_Emp by simp



lemma lit_match_lower:
  "lit_match True w r \<longleftrightarrow> length w \<le> length r \<and> str_lower (take (length w) r) = str_lower w"
proof (induction w arbitrary: r)
  case Nil
  show ?case by (simp add: lit_match_Nil str_lower_def)
next
  case (Cons c w)
  show ?case by (cases r) (auto simp: lit_match_Cons Cons.IH str_lower_def)
qed





definition roman_letter :: "char \<Rightarrow> bool" where
  "roman_letter x = (lower x \<in> set ''mdclxvi'')"



section \<open>The part number\<close>





lemma roman_letter_word: "roman_letter x \<Longrightarrow> is_word x"
proof -
  assume "roman_letter x"
  then have "lower x \<in> set ''mdclxvi''" by (simp add: roman_letter_def)
  then have "is_lower (lower x)" by (auto simp: is_lower_def code_def)
  then show ?thesis
    by (auto simp: lower_def is_word_def is_lower_def is_upper_def code_def split: if_splits)
qed





section \<open>Optional characters and closing boundaries\<close>






section \<open>The media source\<close>


































section \<open>Runs of a character class\<close>


section \<open>The proper flag\<close>
















section \<open>The release-group prefixes\<close>

text \<open>A prefix matches a title when the title, in lower case, starts with it.\<close>

definition prefix_matches :: "string \<Rightarrow> string \<Rightarrow> bool" where
  "prefix_matches title prefix = startswith (str_lower title) (str_lower prefix)"







section \<open>The split on the year\<close>

lemma all_less_list_all: "(\<forall>k<n. P k) \<longleftrightarrow> list_all P [0..<n]"
  by (auto simp: list_all_iff)

lemma startswith_iff: "startswith s p \<longleftrightarrow> length p \<le> length s \<and> take (length p) s = p"
  by (induction s p rule: startswith.induct) auto

lemma split_from_none:
  "\<forall>k<length t. \<not> startswith (drop k t) sep \<Longrightarrow> split_from sep acc t = [rev acc @ t]"
proof (induction t arbitrary: acc)
  case Nil
  show ?case by simp
next
  case (Cons c cs)
  from Cons.prems have h: "\<not> startswith (c # cs) sep" by (metis drop0 length_greater_0_conv list.distinct(1))
  have "\<forall>k<length cs. \<not> startswith (drop k cs) sep"
  proof (intro allI impI)
    fix k assume "k < length cs"
    then have "Suc k < length (c # cs)" by simp
    with Cons.prems have "\<not> startswith (drop (Suc k) (c # cs)) sep" by blast
    then show "\<not> startswith (drop k cs) sep" by simp
  qed
  from Cons.IH[OF this, of "c # acc"] h show ?case by simp
qed

lemma split_from_first:
  assumes "sep \<noteq> []"
  shows "\<forall>k<length a. \<not> startswith (drop k (a @ sep @ b)) sep
         \<Longrightarrow> \<exists>rest. split_from sep acc (a @ sep @ b) = (rev acc @ a) # rest"
proof (induction a arbitrary: acc)
  case Nil
  obtain c cs where sc: "sep = c # cs" using assms by (cases sep) auto
  have "startswith (sep @ b) sep" by (simp add: startswith_iff)
  then show ?case unfolding sc by simp
next
  case (Cons x a)
  from Cons.prems have h: "\<not> startswith ((x # a) @ sep @ b) sep" by fastforce
  have "\<forall>k<length a. \<not> startswith (drop k (a @ sep @ b)) sep"
  proof (intro allI impI)
    fix k assume "k < length a"
    then have "Suc k < length (x # a)" by simp
    with Cons.prems have "\<not> startswith (drop (Suc k) ((x # a) @ sep @ b)) sep" by blast
    then show "\<not> startswith (drop k (a @ sep @ b)) sep" by simp
  qed
  from Cons.IH[OF this, of "x # acc"] h show ?case by simp
qed

lemma split_on_None_first:
  assumes "\<forall>k<length a. \<not> startswith (drop k (a @ ''None'' @ b)) ''None''"
  shows "split_on_year None (a @ ''None'' @ b) = a"
proof -
  from split_from_first[of "''None''" a b "[]", OF _ assms] obtain rest where
    "split_from ''None'' [] (a @ ''None'' @ b) = a # rest" by auto
  then show ?thesis by (simp add: split_on_year_def py_split_def py_str_def)
qed

lemma split_on_None_absent:
  assumes "\<forall>k<length t. \<not> startswith (drop k t) ''None''"
  shows "split_on_year None t = t"
  using split_from_none[OF assms, of "[]"]
  by (simp add: split_on_year_def py_split_def py_str_def)

text \<open>
  C9.  When \<open>get_year\<close> finds no year, \<open>get_title\<close> splits the title it has built so
  far on the text \<open>None\<close>: a title in which \<open>None\<close> first occurs after \<open>a\<close> is cut down
  to \<open>a\<close>, and a title in which \<open>None\<close> does not occur goes on unchanged.
\<close>

theorem get_title_splits_on_None:
  assumes "get_year p = None"
  shows "(title_before_year cfg p = a @ ''None'' @ b
          \<and> (\<forall>k<length a. \<not> startswith (drop k (title_before_year cfg p)) ''None'')
          \<longrightarrow> get_title cfg p = title_after_year cfg a)
       \<and> ((\<forall>k<length (title_before_year cfg p).
               \<not> startswith (drop k (title_before_year cfg p)) ''None'')
          \<longrightarrow> get_title cfg p = title_after_year cfg (title_before_year cfg p))"
proof (intro conjI impI)
  assume h: "title_before_year cfg p = a @ ''None'' @ b
          \<and> (\<forall>k<length a. \<not> startswith (drop k (title_before_year cfg p)) ''None'')"
  then have e: "title_before_year cfg p = a @ ''None'' @ b" ..
  from h have "\<forall>k<length a. \<not> startswith (drop k (title_before_year cfg p)) ''None''" ..
  then have "\<forall>k<length a. \<not> startswith (drop k (a @ ''None'' @ b)) ''None''" unfolding e .
  from split_on_None_first[OF this] h assms
  show "get_title cfg p = title_after_year cfg a" by (simp add: get_title_def)
next
  assume "\<forall>k<length (title_before_year cfg p).
               \<not> startswith (drop k (title_before_year cfg p)) ''None''"
  from split_on_None_absent[OF this] assms
  show "get_title cfg p = title_after_year cfg (title_before_year cfg p)"
    by (simp add: get_title_def)
qed

definition cfg_plain :: config where
  "cfg_plain = \<lparr>strip_prefixes = [], keep_period = [], edition_map = []\<rparr>"

theorem get_title_splits_on_None_witness:
  "get_year ''aNonex'' = None
   \<and> title_before_year cfg_plain ''aNonex'' = ''a'' @ ''None'' @ ''x''
   \<and> get_title cfg_plain ''aNonex'' = ''a''
   \<and> get_title cfg_plain ''a.b'' = ''a''"
proof -
  let ?p = "''aNonex''" and ?q = "''a.b''"
  have y: "get_year ?p = None" "get_year ?q = None" by code_simp+
  have t: "title_before_year cfg_plain ?p = ''a'' @ ''None'' @ ''x''" by code_simp
  have f: "\<forall>k<length ''a''. \<not> startswith (drop k (title_before_year cfg_plain ?p)) ''None''"
    unfolding all_less_list_all t by code_simp
  have u: "title_before_year cfg_plain ?q = ''a''" by code_simp
  have g: "\<forall>k<length (title_before_year cfg_plain ?q).
                 \<not> startswith (drop k (title_before_year cfg_plain ?q)) ''None''"
    unfolding all_less_list_all u by code_simp
  have a: "title_after_year cfg_plain ''a'' = ''a''" by code_simp
  from get_title_splits_on_None[OF y(1), of cfg_plain "''a''" "''x''"]
       get_title_splits_on_None[OF y(2), of cfg_plain "[]" "[]"] y t f g a u
  show ?thesis by simp
qed

section \<open>The article \<open>, the\<close>\<close>

text \<open>
  The text \<open>w\<close> occurs in \<open>t\<close> at position \<open>k\<close>, case ignored; and \<open>t\<close> with every
  occurrence of \<open>w\<close> removed, from left to right.
\<close>

definition occurs_ci :: "string \<Rightarrow> string \<Rightarrow> bool" where
  "occurs_ci w t = list_ex (\<lambda>k. prefix_matches (drop k t) w) [0..<length t]"

function remove_ci :: "string \<Rightarrow> string \<Rightarrow> string" where
  "remove_ci w [] = []"
| "remove_ci w (c # cs) =
     (if prefix_matches (c # cs) w then remove_ci w (drop (length w - 1) cs)
      else c # remove_ci w cs)"
  by pat_completeness auto
termination
  by (relation "measure (\<lambda>(w, t). length t)") auto

lemma lit_match_prefix: "lit_match True w r \<longleftrightarrow> prefix_matches r w"
  unfolding lit_match_lower prefix_matches_def startswith_iff
  by (auto simp: str_lower_def take_map)

lemma prefix_matches_len: "prefix_matches r w \<Longrightarrow> length w \<le> length r"
  by (simp add: prefix_matches_def startswith_iff str_lower_def)

lemma attempts_lit:
  assumes "w \<noteq> []"
  shows "attempts True (lit w) adv l r =
     (if prefix_matches r w then [(rev (take (length w) r) @ l, drop (length w) r, [])] else [])"
proof (cases "prefix_matches r w")
  case False
  then show ?thesis by (simp add: attempts_def rmatch_lit lit_match_prefix del: lit.simps)
next
  case True
  then have "length w \<le> length r" by (rule prefix_matches_len)
  with assms have "length (drop (length w) r) < length r" by (cases w) auto
  with True show ?thesis
    by (simp add: attempts_def rmatch_lit lit_match_prefix Let_def del: lit.simps)
qed

text \<open>Where no match starts at the first character, \<open>re.sub\<close> copies it and goes on.\<close>

lemma scan_pre_length:
  "scan ic p adv l r = Some mt \<Longrightarrow> length l \<le> length (m_pre mt)"
proof (induction r arbitrary: l adv)
  case Nil
  then show ?case by (auto simp: mk_match_def split: list.splits prod.splits)
next
  case (Cons x r)
  show ?case
  proof (cases "attempts ic p adv l (x # r)")
    case Nil
    with Cons.prems have "scan ic p False (x # l) r = Some mt" by simp
    from Cons.IH[OF this] show ?thesis by simp
  next
    case (Cons st rest)
    with Cons.prems show ?thesis by (auto simp: mk_match_def split: prod.splits)
  qed
qed

lemma sub_from_skip:
  assumes "attempts ic p adv l (x # r) = []"
  shows "sub_from ic p tpl adv l (x # r) = x # sub_from ic p tpl False (x # l) r"
proof -
  from assms have sc: "scan ic p adv l (x # r) = scan ic p False (x # l) r" by simp
  show ?thesis
  proof (cases "scan ic p False (x # l) r")
    case None
    with sc show ?thesis by (simp add: sub_from.simps[of ic p tpl adv l "x # r"]
          sub_from.simps[of ic p tpl False "x # l" r])
  next
    case (Some mt)
    from scan_pre_length[OF Some] have "Suc (length l) \<le> length (m_pre mt)" by simp
    then have "length (m_pre mt) - length l = Suc (length (m_pre mt) - length (x # l))"
      by simp
    then have "take (length (m_pre mt) - length l) (x # r)
               = x # take (length (m_pre mt) - length (x # l)) r"
      by (simp only: take_Suc_Cons)
    with sc Some show ?thesis
      by (simp add: sub_from.simps[of ic p tpl adv l "x # r"]
          sub_from.simps[of ic p tpl False "x # l" r])
  qed
qed

lemma sub_from_lit:
  assumes "w \<noteq> []"
  shows "sub_from True (lit w) [] adv l r = remove_ci w r"
proof (induction "length r" arbitrary: l r adv rule: less_induct)
  case less
  show ?case
  proof (cases r)
    case Nil
    have "attempts True (lit w) adv l [] = []"
      using assms by (simp add: attempts_lit prefix_matches_def startswith_iff str_lower_def)
    then show ?thesis unfolding Nil by (simp add: sub_from.simps[of _ _ _ _ _ "[]"])
  next
    case (Cons x r')
    show ?thesis
    proof (cases "prefix_matches r w")
      case False
      then have "attempts True (lit w) adv l (x # r') = []"
        unfolding Cons by (simp add: attempts_lit[OF assms])
      moreover have "sub_from True (lit w) [] False (x # l) r' = remove_ci w r'"
        by (rule less) (simp add: Cons)
      ultimately show ?thesis
        using sub_from_skip[of True "lit w" adv l x r' "[]"] False unfolding Cons by simp
    next
      case True
      then have a: "attempts True (lit w) adv l r
                    = [(rev (take (length w) r) @ l, drop (length w) r, [])]"
        by (simp add: attempts_lit[OF assms])
      from True have len: "length w \<le> length r" by (rule prefix_matches_len)
      with assms have ne: "take (length w) r \<noteq> []" and sh: "length (drop (length w) r) < length r"
        by (cases w; cases r; auto)+
      have sc: "scan True (lit w) adv l r = Some (mk_match l r (rev (take (length w) r) @ l, drop (length w) r, []))"
        unfolding Cons using a[unfolded Cons] by simp
      have d: "drop (length w) r = drop (length w - 1) r'"
        unfolding Cons using assms by (cases w) auto
      have "sub_from True (lit w) [] adv l r
            = sub_from True (lit w) [] False (rev (take (length w) r) @ l) (drop (length w) r)"
        using sc ne len
        by (subst sub_from.simps) (simp add: mk_match_def expand_def)
      also have "\<dots> = remove_ci w (drop (length w) r)" by (rule less[OF sh])
      also have "\<dots> = remove_ci w r" using True d unfolding Cons by simp
      finally show ?thesis .
    qed
  qed
qed

lemma search_lit:
  assumes "w \<noteq> []"
  shows "re_search True (lit w) t \<noteq> None \<longleftrightarrow> occurs_ci w t"
proof
  assume "re_search True (lit w) t \<noteq> None"
  then obtain mt where "scan True (lit w) False [] t = Some mt" by (auto simp: re_search_def)
  from scan_rel_Some[OF this] obtain a st rest where a: "a \<le> length t"
    and m: "rmatch True (lit w) (rev (take a t) @ []) (drop a t) [] = st # rest" by blast
  then have pm: "prefix_matches (drop a t) w"
    by (auto simp: rmatch_lit lit_match_prefix simp del: lit.simps split: if_splits)
  then have "length w \<le> length (drop a t)" by (rule prefix_matches_len)
  with assms have "a < length t" by (cases w) auto
  with pm show "occurs_ci w t" unfolding occurs_ci_def list_ex_iff by auto
next
  assume "occurs_ci w t"
  then obtain k where k: "k < length t" "prefix_matches (drop k t) w"
    unfolding occurs_ci_def list_ex_iff by auto
  show "re_search True (lit w) t \<noteq> None"
  proof
    assume "re_search True (lit w) t = None"
    from scan_rel_None[OF this[unfolded re_search_def], of k] k show False
      by (simp add: rmatch_lit lit_match_prefix del: lit.simps)
  qed
qed


text \<open>
  C3, as the code has it.  The pattern \<open>, the\<close> is searched anywhere in the title, not
  at its end: when it occurs, every occurrence is removed and \<open>The \<close> is put in front;
  a title without it is unchanged.
\<close>

theorem the_article_all_occurrences:
  "the_article t = (if occurs_ci '', the'' t then ''The '' @ remove_ci '', the'' t else t)"
proof -
  have ne: "'', the'' \<noteq> []" by simp
  show ?thesis
    unfolding the_article_def re_sub_def search_lit[OF ne] sub_from_lit[OF ne] ..
qed

theorem the_article_all_occurrences_witness:
  "the_article ''Matrix, The'' = ''The Matrix''
   \<and> the_article ''Heat'' = ''Heat''"
proof -
  have a: "occurs_ci '', the'' ''Matrix, The''" by code_simp
  have b: "remove_ci '', the'' ''Matrix, The'' = ''Matrix''" by code_simp
  have c: "\<not> occurs_ci '', the'' ''Heat''" by code_simp
  from the_article_all_occurrences[of "''Matrix, The''"] the_article_all_occurrences[of "''Heat''"]
    a b c show ?thesis by simp
qed

text \<open>
  C3 as stated fails: a title that does not end in \<open>, the\<close> and has it inside is
  changed by the step.
\<close>

theorem the_article_interior_counterexample:
  "str_lower (drop (length ''Matrix, The (1999)'' - length '', the'') ''Matrix, The (1999)'')
     \<noteq> '', the''
   \<and> occurs_ci '', the'' ''Matrix, The (1999)''
   \<and> the_article ''Matrix, The (1999)'' = ''The Matrix (1999)''"
  by code_simp

section \<open>The edition map\<close>














end
